theory Spec2Isabelle
  imports Complex_Main
begin

section \<open>Auto-dialer backend: data model\<close>

text \<open>
  The embedding follows \<^verbatim>\<open>src/backend/server.js\<close>. A MongoDB collection is a list of
  documents in insertion order, each paired with its \<^verbatim>\<open>_id\<close> (a natural number stands
  for an ObjectId). JavaScript numbers are modelled as exact rationals (\<^typ>\<open>rat\<close>), so
  \<^verbatim>\<open>CALL_COST = 0.05\<close> is \<open>1/20\<close>; JavaScript strings are modelled as byte strings.
  An Express handler becomes a function from the database (and the request) to the new
  database and the response.
\<close>

type_synonym oid = nat

text \<open>The \<^verbatim>\<open>User\<close> schema (lines 55-61).\<close>

record user =
  username :: string
  password :: string
  role :: string
  balance :: rat
  createdAt :: nat

text \<open>The contact schema (lines 63-69); \<^verbatim>\<open>status\<close> is the schema's enum.\<close>

datatype status = New | Called | Answered | Unanswered

record contact =
  contact_name :: string
  phoneNumber :: string
  status :: status
  callNotes :: string
  contact_campaign :: oid

text \<open>The campaign schema (lines 73-85); \<open>campaign_user\<close> is the field \<^verbatim>\<open>user\<close>.\<close>

record campaign =
  campaign_name :: string
  campaign_user :: oid
  fromNumber :: string
  ttsMessage :: string
  callsPerMinute :: rat
  batchDelaySeconds :: rat
  customBlocklist :: "string list"
  isActive :: bool
  campaign_contacts :: "oid list"
  campaign_createdAt :: nat
  lastBatchFetchTime :: "nat option"

text \<open>
  The database: the three collections and the \<^verbatim>\<open>SystemSettings\<close> singleton (its
  \<^verbatim>\<open>fromNumberBlocklist\<close>; \<open>None\<close> when the document does not exist yet).
\<close>

record db =
  users :: "(oid \<times> user) list"
  campaigns :: "(oid \<times> campaign) list"
  contacts :: "(oid \<times> contact) list"
  settings :: "string list option"

text \<open>\<^verbatim>\<open>findById\<close>: the document with a given \<^verbatim>\<open>_id\<close>.\<close>

definition findById :: "(oid \<times> 'a) list \<Rightarrow> oid \<Rightarrow> 'a option" where
  "findById coll k = map_of coll k"

text \<open>An update of the document with a given \<^verbatim>\<open>_id\<close> (none when it is absent).\<close>

fun update_doc :: "oid \<Rightarrow> ('a \<Rightarrow> 'a) \<Rightarrow> (oid \<times> 'a) list \<Rightarrow> (oid \<times> 'a) list" where
  "update_doc k f [] = []"
| "update_doc k f ((k', v) # r) =
     (if k' = k then (k', f v) # r else (k', v) # update_doc k f r)"

text \<open>A JSON value of a request body, as far as \<^verbatim>\<open>typeof\<close> tells them apart.\<close>

datatype json = JUndefined | JNull | JBool bool | JNumber rat | JString string | JObject

text \<open>An HTTP error response: the status code and the message.\<close>

datatype failure = Failure nat string

definition CALL_COST :: rat where
  "CALL_COST = 1 / 20"

section \<open>Balance ledger: the administrative top-up\<close>

text \<open>
  \<^verbatim>\<open>POST /admin/users/:userId/add-balance\<close> (lines 164-171), after the two middlewares
  have let the request through. The response is the updated user (the handler leaves the
  password out of what it sends; the model returns the whole record).
\<close>

definition add_balance :: "db \<Rightarrow> oid \<Rightarrow> json \<Rightarrow> db \<times> (failure + user)" where
  "add_balance d userId amount =
     (case amount of
        JNumber a \<Rightarrow>
          if a \<le> 0 then (d, Inl (Failure 400 ''Invalid amount.''))
          else
            (let us = update_doc userId (\<lambda>u. u\<lparr>balance := balance u + a\<rparr>) (users d)
             in case findById us userId of
                  None \<Rightarrow> (d, Inl (Failure 404 ''User not found.''))
                | Some u \<Rightarrow> (d\<lparr>users := us\<rparr>, Inr u))
      | _ \<Rightarrow> (d, Inl (Failure 400 ''Invalid amount.'')))"

text \<open>
  The same handler with the store's \<^verbatim>\<open>$inc\<close> as a parameter. The store adds IEEE
  doubles: the sum it stores is the exact sum only when that is a double again
  (\<^verbatim>\<open>0.2 + 0.1\<close> is stored as \<^verbatim>\<open>0.30000000000000004\<close>), so \<open>inc x a\<close> stands for the
  double that \<^verbatim>\<open>$inc\<close> stores for the balance \<open>x\<close> and the amount \<open>a\<close>.
  \<open>add_balance\<close> above is this handler with the exact sum for \<open>inc\<close>.
\<close>

definition add_balance_inc ::
  "(rat \<Rightarrow> rat \<Rightarrow> rat) \<Rightarrow> db \<Rightarrow> oid \<Rightarrow> json \<Rightarrow> db \<times> (failure + user)" where
  "add_balance_inc inc d userId amount =
     (case amount of
        JNumber a \<Rightarrow>
          if a \<le> 0 then (d, Inl (Failure 400 ''Invalid amount.''))
          else
            (let us = update_doc userId (\<lambda>u. u\<lparr>balance := inc (balance u) a\<rparr>) (users d)
             in case findById us userId of
                  None \<Rightarrow> (d, Inl (Failure 404 ''User not found.''))
                | Some u \<Rightarrow> (d\<lparr>users := us\<rparr>, Inr u))
      | _ \<Rightarrow> (d, Inl (Failure 400 ''Invalid amount.'')))"

section \<open>Strings\<close>

text \<open>
  Strings are byte strings and characters are handled by their codes; the functions
  below are those of JavaScript on ASCII text, and leave every other byte alone. White
  space is what \<^verbatim>\<open>String.prototype.trim\<close>
  and \<^verbatim>\<open>parseInt\<close> skip (within one byte: tab, line feed, vertical tab, form feed,
  carriage return, space); a word character is what the regular expression \<^verbatim>\<open>\w\<close>
  matches, and \<^verbatim>\<open>\b\<close> is defined from it.
\<close>

definition char_code :: "char \<Rightarrow> nat" where
  "char_code c = of_char c"

definition is_space :: "char \<Rightarrow> bool" where
  "is_space c = ((9 \<le> char_code c \<and> char_code c \<le> 13) \<or> char_code c = 32)"

definition is_digit :: "char \<Rightarrow> bool" where
  "is_digit c = (48 \<le> char_code c \<and> char_code c \<le> 57)"

definition is_word_char :: "char \<Rightarrow> bool" where
  "is_word_char c =
     ((48 \<le> char_code c \<and> char_code c \<le> 57) \<or> (65 \<le> char_code c \<and> char_code c \<le> 90)
      \<or> char_code c = 95 \<or> (97 \<le> char_code c \<and> char_code c \<le> 122))"

definition lower_char :: "char \<Rightarrow> char" where
  "lower_char c =
     (if 65 \<le> char_code c \<and> char_code c \<le> 90 then char_of (char_code c + 32) else c)"

definition upper_char :: "char \<Rightarrow> char" where
  "upper_char c =
     (if 97 \<le> char_code c \<and> char_code c \<le> 122 then char_of (char_code c - 32) else c)"

text \<open>
  \<^verbatim>\<open>String.prototype.toLowerCase\<close> is modelled on ASCII text only: outside ASCII the
  function also maps other characters, and the model gives no answer (\<open>None\<close>).
\<close>

definition is_ascii :: "string \<Rightarrow> bool" where
  "is_ascii s = list_all (\<lambda>c. char_code c < 128) s"

definition toLowerCase :: "string \<Rightarrow> string option" where
  "toLowerCase s = (if is_ascii s then Some (map lower_char s) else None)"

definition trim :: "string \<Rightarrow> string" where
  "trim s = rev (dropWhile is_space (rev (dropWhile is_space s)))"

text \<open>\<^verbatim>\<open>s.split(',')\<close>: the pieces between the separators, empty ones included.\<close>

fun split_on :: "char \<Rightarrow> string \<Rightarrow> string list" where
  "split_on sep [] = [[]]"
| "split_on sep (c # cs) =
     (if c = sep then [] # split_on sep cs
      else (case split_on sep cs of
              [] \<Rightarrow> [[c]]
            | w # ws \<Rightarrow> (c # w) # ws))"

text \<open>
  \<^verbatim>\<open>parseInt(s, 10)\<close>: leading white space is skipped, then an optional sign, then the
  longest run of decimal digits; \<open>None\<close> is \<^verbatim>\<open>NaN\<close> (no digit there).
\<close>

definition digits_value :: "string \<Rightarrow> int" where
  "digits_value ds = foldl (\<lambda>a d. 10 * a + (int (char_code d) - 48)) 0 ds"

definition parseInt :: "string \<Rightarrow> int option" where
  "parseInt s =
     (let t = dropWhile is_space s;
          neg = (t \<noteq> [] \<and> hd t = CHR ''-'');
          r = (if t \<noteq> [] \<and> (hd t = CHR ''-'' \<or> hd t = CHR ''+'') then tl t else t);
          ds = takeWhile is_digit r
      in if ds = [] then None
         else Some (if neg then - digits_value ds else digits_value ds))"

section \<open>Moderation: \<^verbatim>\<open>isTextFlagged\<close>\<close>

text \<open>
  The external classifier (lines 99-111). The API key is an environment variable
  (\<open>None\<close> when unset). The call's outcome is a parameter of the model: the fetch
  throws (\<open>Unreachable\<close>), or it answers with \<^verbatim>\<open>response.ok\<close> and a body. The body is
  \<open>None\<close> when it is no JSON or has no \<^verbatim>\<open>attributeScores\<close> (reading it throws), and
  otherwise what line 108 reads for \<^verbatim>\<open>SPAM\<close>, \<^verbatim>\<open>TOXICITY\<close> and \<^verbatim>\<open>THREAT\<close>. For each of
  them the attribute or its \<^verbatim>\<open>summaryScore\<close> is missing, so that reading the value throws
  (\<open>Unreadable_score\<close>), or the \<^verbatim>\<open>summaryScore\<close> has no \<^verbatim>\<open>value\<close>, so that \<^verbatim>\<open>undefined\<close> is
  compared and the comparison is false (\<open>NoValue\<close>), or the value is a number, as the
  classifier sends it. An exception ends the \<^verbatim>\<open>try\<close> block: the \<^verbatim>\<open>catch\<close> logs it and
  the function goes on to the word list.
\<close>

datatype score = Unreadable_score | NoValue | Score rat

datatype classifier_reply = Unreachable | Reply bool "(score \<times> score \<times> score) option"

definition SPAM_THRESHOLD :: rat where
  "SPAM_THRESHOLD = 8 / 10"

definition classifier_configured :: "string option \<Rightarrow> bool" where
  "classifier_configured key =
     (case key of
        None \<Rightarrow> False
      | Some k \<Rightarrow> k \<noteq> [] \<and> k \<noteq> ''YOUR_GOOGLE_PERSPECTIVE_API_KEY'')"

text \<open>The disjunction of line 108, read from left to right.\<close>

fun scores_flag :: "score list \<Rightarrow> bool" where
  "scores_flag [] = False"
| "scores_flag (Unreadable_score # rest) = False"
| "scores_flag (NoValue # rest) = scores_flag rest"
| "scores_flag (Score v # rest) = (v > SPAM_THRESHOLD \<or> scores_flag rest)"

definition classifier_flags :: "string option \<Rightarrow> classifier_reply \<Rightarrow> bool" where
  "classifier_flags key reply =
     (classifier_configured key \<and>
      (case reply of
         Unreachable \<Rightarrow> False
       | Reply ok body \<Rightarrow>
           ok \<and>
           (case body of
              None \<Rightarrow> False
            | Some (spam, toxicity, threat) \<Rightarrow> scores_flag [spam, toxicity, threat])))"

text \<open>
  The regular expression \<^verbatim>\<open>new RegExp(`\\b${word}\\b`, 'i')\<close>. The word is pasted into
  the pattern as it is, so the pattern is the literal word only when the word has no
  syntax character of the pattern language; the model covers that fragment, on ASCII
  words, and answers \<open>None\<close> outside it (there the pattern means something else, the
  constructor throws, or case and white space follow rules that are not modelled).
\<close>

definition is_syntax_char :: "char \<Rightarrow> bool" where
  "is_syntax_char c = (c \<in> set ''^$.*+?()[]{}|'' \<or> c = CHR 0x5C)"

definition canonicalize :: "char \<Rightarrow> char" where
  "canonicalize c = upper_char c"

definition is_word_opt :: "char option \<Rightarrow> bool" where
  "is_word_opt c = (case c of None \<Rightarrow> False | Some x \<Rightarrow> is_word_char x)"

text \<open>\<^verbatim>\<open>\b\<close> between the character before a position and the one after it.\<close>

definition word_boundary :: "char option \<Rightarrow> char option \<Rightarrow> bool" where
  "word_boundary before after = (is_word_opt before \<noteq> is_word_opt after)"

definition first_char :: "string \<Rightarrow> char option" where
  "first_char t = (case t of [] \<Rightarrow> None | c # _ \<Rightarrow> Some c)"

text \<open>The character before a position: the last one of what was read, if any.\<close>

definition last_before :: "char option \<Rightarrow> string \<Rightarrow> char option" where
  "last_before before pre = (if pre = [] then before else Some (last pre))"

text \<open>
  The pattern's characters, compared without regard to case, and then the closing
  \<^verbatim>\<open>\b\<close>; \<open>before\<close> is the character before the current position.
\<close>

fun match_word :: "char option \<Rightarrow> string \<Rightarrow> string \<Rightarrow> bool" where
  "match_word before [] t = word_boundary before (first_char t)"
| "match_word before (p # ps) [] = False"
| "match_word before (p # ps) (c # cs) =
     (canonicalize p = canonicalize c \<and> match_word (Some c) ps cs)"

definition match_at :: "char option \<Rightarrow> string \<Rightarrow> string \<Rightarrow> bool" where
  "match_at before w t = (word_boundary before (first_char t) \<and> match_word before w t)"

text \<open>\<^verbatim>\<open>regex.test\<close>: a match is tried at every position, from left to right.\<close>

fun regex_search :: "char option \<Rightarrow> string \<Rightarrow> string \<Rightarrow> bool" where
  "regex_search before w [] = match_at before w []"
| "regex_search before w (c # cs) =
     (match_at before w (c # cs) \<or> regex_search (Some c) w cs)"

definition regex_test :: "string \<Rightarrow> string \<Rightarrow> bool option" where
  "regex_test w t =
     (if is_ascii w \<and> \<not> list_ex is_syntax_char w then Some (regex_search None w t)
      else None)"

text \<open>
  A word for which the pattern finds whole words: it is not empty, it is ASCII, it
  begins and ends with a word character and it has no syntax character.
\<close>

definition literal_word :: "string \<Rightarrow> bool" where
  "literal_word w =
     (w \<noteq> [] \<and> is_ascii w \<and> is_word_char (hd w) \<and> is_word_char (last w)
      \<and> \<not> list_ex is_syntax_char w)"

text \<open>
  The loop over the custom blocklist (lines 113-116). With an empty list it does
  nothing, whatever the text.
\<close>

fun blocklist_loop :: "string \<Rightarrow> string list \<Rightarrow> bool option" where
  "blocklist_loop lowerCaseText [] = Some False"
| "blocklist_loop lowerCaseText (blockedWord # rest) =
     (case regex_test (trim blockedWord) lowerCaseText of
        None \<Rightarrow> None
      | Some found \<Rightarrow> if found then Some True else blocklist_loop lowerCaseText rest)"

definition isTextFlagged ::
  "string option \<Rightarrow> classifier_reply \<Rightarrow> string \<Rightarrow> string list \<Rightarrow> bool option" where
  "isTextFlagged key reply text blocklist =
     (if classifier_flags key reply then Some True
      else (case toLowerCase text of
              None \<Rightarrow> (case blocklist of [] \<Rightarrow> Some False | _ # _ \<Rightarrow> None)
            | Some lowerCaseText \<Rightarrow> blocklist_loop lowerCaseText blocklist))"

text \<open>
  The specification's reading of the word list check, for comparison: the text, without
  regard to case, holds the word as a whole word, that is, at a place where it is not
  part of a longer word. The comparison is made on ASCII text, where a word is a run of
  letters, digits and underscores; outside ASCII there is no answer.
\<close>

definition contains_whole_word :: "string \<Rightarrow> string \<Rightarrow> bool option" where
  "contains_whole_word w t =
     (case toLowerCase w of
        None \<Rightarrow> None
      | Some lw \<Rightarrow>
          (case toLowerCase t of
             None \<Rightarrow> None
           | Some lt \<Rightarrow>
               Some (\<exists>pre suf. lt = pre @ lw @ suf \<and>
                       (pre = [] \<or> \<not> is_word_char (last pre)) \<and>
                       (suf = [] \<or> \<not> is_word_char (hd suf)))))"

section \<open>Number policy: the global blocklist\<close>

text \<open>
  \<^verbatim>\<open>POST /admin/settings/blocklist\<close> (lines 175-179). \<open>numbers\<close> is
  \<^verbatim>\<open>req.body.numbers\<close>, a string when present; the empty string is falsy.
\<close>

definition numbersToAdd :: "string option \<Rightarrow> string list" where
  "numbersToAdd numbers =
     (case numbers of
        None \<Rightarrow> []
      | Some s \<Rightarrow> if s = [] then [] else filter (\<lambda>n. n \<noteq> []) (map trim (split_on CHR '','' s)))"

text \<open>
  The store's \<^verbatim>\<open>$addToSet\<close> with \<^verbatim>\<open>$each\<close>: each value is appended unless the array
  holds it already.
\<close>

fun addToSet_each :: "string list \<Rightarrow> string list \<Rightarrow> string list" where
  "addToSet_each arr [] = arr"
| "addToSet_each arr (v # vs) = addToSet_each (if v \<in> set arr then arr else arr @ [v]) vs"

text \<open>The update is an upsert: a missing settings document starts from the empty list.\<close>

definition post_blocklist :: "db \<Rightarrow> string option \<Rightarrow> db \<times> string list" where
  "post_blocklist d numbers =
     (let current = (case settings d of None \<Rightarrow> [] | Some bl \<Rightarrow> bl);
          updated = addToSet_each current (numbersToAdd numbers)
      in (d\<lparr>settings := Some updated\<rparr>, updated))"

text \<open>
  \<^verbatim>\<open>DELETE /admin/settings/blocklist\<close> (lines 180-184): \<^verbatim>\<open>$pull\<close> removes every
  element equal to the value. No document is created here; without one the handler
  throws, which is \<open>None\<close>.
\<close>

definition delete_blocklist :: "db \<Rightarrow> string \<Rightarrow> (db \<times> string list) option" where
  "delete_blocklist d numberToRemove =
     (case settings d of
        None \<Rightarrow> None
      | Some bl \<Rightarrow>
          (let updated = filter (\<lambda>n. n \<noteq> numberToRemove) bl
           in Some (d\<lparr>settings := Some updated\<rparr>, updated)))"

text \<open>The administrative edits of the blocklist, run in sequence.\<close>

datatype blocklist_edit = Add "string option" | Remove string

fun apply_edit :: "db \<Rightarrow> blocklist_edit \<Rightarrow> db" where
  "apply_edit d (Add numbers) = fst (post_blocklist d numbers)"
| "apply_edit d (Remove n) = (case delete_blocklist d n of None \<Rightarrow> d | Some r \<Rightarrow> fst r)"

definition blocklist_of :: "db \<Rightarrow> string list" where
  "blocklist_of d = (case settings d of None \<Rightarrow> [] | Some bl \<Rightarrow> bl)"

section \<open>Registration\<close>

text \<open>
  \<^verbatim>\<open>POST /auth/register\<close> (lines 133-141). The route has no middleware: the only input
  is the request body, whose \<^verbatim>\<open>role\<close> is \<open>None\<close> when absent. \<open>hash\<close> stands for
  bcrypt with its fresh salt, \<open>newId\<close> for the ObjectId of the new document and
  \<open>now\<close> for the clock. Saving validates the document (the trimmed user name is
  required, the role is one of the schema's enum) and the unique index on the user
  name; any failure there is the handler's \<^verbatim>\<open>catch\<close>. The response carries a token
  for the new user's id.
\<close>

definition username_taken :: "db \<Rightarrow> string \<Rightarrow> bool" where
  "username_taken d name = list_ex (\<lambda>(k, u). username u = name) (users d)"

definition register ::
  "(string \<Rightarrow> string) \<Rightarrow> oid \<Rightarrow> nat \<Rightarrow> db \<Rightarrow> string \<Rightarrow> string \<Rightarrow> string option
     \<Rightarrow> db \<times> (failure + oid)" where
  "register hash newId now d uname pw body_role =
     (if username_taken d uname then (d, Inl (Failure 400 ''User already exists.''))
      else
        (let new_user = \<lparr> username = trim uname, password = hash pw,
                           role = (case body_role of None \<Rightarrow> ''user'' | Some r \<Rightarrow> r),
                           balance = 0, createdAt = now \<rparr>
         in if username new_user = [] \<or> password new_user = []
               \<or> \<not> (role new_user = ''user'' \<or> role new_user = ''admin'')
               \<or> username_taken d (username new_user)
               \<or> findById (users d) newId \<noteq> None
            then (d, Inl (Failure 500 ''Server error''))
            else (d\<lparr>users := users d @ [(newId, new_user)]\<rparr>, Inr newId)))"

section \<open>Batch dispatcher: \<^verbatim>\<open>GET /campaigns/:id/next-contacts/:count\<close>\<close>

text \<open>
  The store's \<^verbatim>\<open>limit\<close>: a negative limit counts as its absolute value (the count
  here is never zero).
\<close>

definition limit_docs :: "int \<Rightarrow> 'a list \<Rightarrow> 'a list" where
  "limit_docs n docs = take (nat \<bar>n\<bar>) docs"

text \<open>\<^verbatim>\<open>parseInt(req.params.count, 10) || 5\<close>: \<^verbatim>\<open>NaN\<close> and zero are falsy.\<close>

definition batchSize_of :: "string \<Rightarrow> int" where
  "batchSize_of count = (case parseInt count of None \<Rightarrow> 5 | Some n \<Rightarrow> if n = 0 then 5 else n)"

text \<open>\<^verbatim>\<open>Contact.find({ campaign: id, status: 'new' })\<close>, in the collection's order.\<close>

definition new_contacts :: "db \<Rightarrow> oid \<Rightarrow> (oid \<times> contact) list" where
  "new_contacts d cid =
     filter (\<lambda>(k, c). contact_campaign c = cid \<and> status c = New) (contacts d)"

text \<open>\<^verbatim>\<open>Campaign.findOne({ _id: id, user: uid })\<close>.\<close>

definition findOne_campaign :: "db \<Rightarrow> oid \<Rightarrow> oid \<Rightarrow> campaign option" where
  "findOne_campaign d cid uid =
     (case findById (campaigns d) cid of
        None \<Rightarrow> None
      | Some c \<Rightarrow> if campaign_user c = uid then Some c else None)"

text \<open>
  The handler (lines 198-211), for the authenticated user \<open>uid\<close> (\<^verbatim>\<open>req.user.id\<close>),
  the campaign id and the count of the path, at time \<open>now\<close>. A missing user makes
  \<^verbatim>\<open>user.balance\<close> throw, which the \<^verbatim>\<open>catch\<close> answers. The success response is the
  contacts and \<^verbatim>\<open>newBalance\<close>.
\<close>

definition next_contacts ::
  "nat \<Rightarrow> db \<Rightarrow> oid \<Rightarrow> oid \<Rightarrow> string \<Rightarrow> db \<times> (failure + (oid \<times> contact) list \<times> rat)" where
  "next_contacts now d uid cid count =
     (case findById (users d) uid of
        None \<Rightarrow> (d, Inl (Failure 500 ''Error fetching contacts.''))
      | Some u \<Rightarrow>
          (let batchSize = batchSize_of count;
               requiredBalance = CALL_COST * of_int batchSize
           in if balance u < requiredBalance
              then (d\<lparr>campaigns := update_doc cid (\<lambda>c. c\<lparr>isActive := False\<rparr>) (campaigns d)\<rparr>,
                    Inl (Failure 402 ''Insufficient balance. Campaign paused.''))
              else
                (case findOne_campaign d cid uid of
                   None \<Rightarrow> (d, Inl (Failure 404 ''Campaign not found or is inactive.''))
                 | Some c \<Rightarrow>
                     if \<not> isActive c
                     then (d, Inl (Failure 404 ''Campaign not found or is inactive.''))
                     else
                       (let newBalance = balance u - requiredBalance;
                            d1 = d\<lparr>users := update_doc uid (\<lambda>x. x\<lparr>balance := newBalance\<rparr>) (users d)\<rparr>;
                            found = limit_docs batchSize (new_contacts d1 cid)
                        in if length found = 0
                           then (d1, Inl (Failure 404 ''No new contacts to call.''))
                           else (d1\<lparr>campaigns :=
                                     update_doc cid (\<lambda>x. x\<lparr>lastBatchFetchTime := Some now\<rparr>)
                                       (campaigns d1)\<rparr>,
                                 Inr (found, newBalance))))))"

text \<open>The two operations on balances, run in sequence.\<close>

datatype ledger_op = Debit nat oid oid string | Credit oid json

fun apply_ledger_op :: "db \<Rightarrow> ledger_op \<Rightarrow> db" where
  "apply_ledger_op d (Debit now uid cid count) = fst (next_contacts now d uid cid count)"
| "apply_ledger_op d (Credit userId amount) = fst (add_balance d userId amount)"

definition balances_nonneg :: "db \<Rightarrow> bool" where
  "balances_nonneg d = list_all (\<lambda>(k, u). 0 \<le> balance u) (users d)"

text \<open>What a response debited: the balance before minus the balance after.\<close>

definition balance_of :: "db \<Rightarrow> oid \<Rightarrow> rat" where
  "balance_of d uid = (case findById (users d) uid of None \<Rightarrow> 0 | Some u \<Rightarrow> balance u)"

section \<open>Campaign lifecycle\<close>

text \<open>
  Modelled from the spec: the \<open>Start\<close> transition of section 4.3. The server has no
  handler that starts or resumes a campaign (\<^verbatim>\<open>isActive\<close> is only ever cleared, by the
  insufficient-balance branch of the dispatcher), while the README lists starting and
  pausing campaigns among the features; the transition is written here from the spec's
  words: Paused to Active, allowed only if the owning account's current balance is at
  least the cost of one call, otherwise rejected with an insufficient-funds error. The
  result is the error, if any, and the campaign afterwards.
\<close>

datatype lifecycle_error = InsufficientFunds

definition Start :: "user \<Rightarrow> campaign \<Rightarrow> lifecycle_error option \<times> campaign" where
  "Start owner c =
     (if CALL_COST \<le> balance owner then (None, c\<lparr>isActive := True\<rparr>)
      else (Some InsufficientFunds, c))"

section \<open>Example data\<close>

text \<open>
  One user (id 1) with a given balance, one active campaign (id 7) of that user whose
  \<^verbatim>\<open>callsPerMinute\<close> is 5, and new contacts of that campaign with the given ids.
\<close>

definition sample_user :: "rat \<Rightarrow> user" where
  "sample_user b = \<lparr> username = ''ann'', password = ''$2a$10$hash'', role = ''user'',
                      balance = b, createdAt = 0 \<rparr>"

definition sample_campaign :: campaign where
  "sample_campaign = \<lparr> campaign_name = ''spring'', campaign_user = 1,
       fromNumber = ''15550001111'', ttsMessage = ''Hello {name}'', callsPerMinute = 5,
       batchDelaySeconds = 60, customBlocklist = [], isActive = True, campaign_contacts = [],
       campaign_createdAt = 0, lastBatchFetchTime = None \<rparr>"

definition sample_contact :: "nat \<Rightarrow> oid \<times> contact" where
  "sample_contact k = (k, \<lparr> contact_name = ''contact'', phoneNumber = replicate k CHR ''7'',
       status = New, callNotes = [], contact_campaign = 7 \<rparr>)"

definition sample_db :: "rat \<Rightarrow> nat list \<Rightarrow> db" where
  "sample_db b ks = \<lparr> users = [(1, sample_user b)], campaigns = [(7, sample_campaign)],
       contacts = map sample_contact ks, settings = None \<rparr>"

section \<open>Facts about the store\<close>

lemmas sample_defs = sample_db_def sample_user_def sample_campaign_def sample_contact_def

lemmas isTextFlagged_defs = isTextFlagged_def classifier_flags_def classifier_configured_def
  toLowerCase_def lower_char_def upper_char_def regex_test_def is_syntax_char_def trim_def
  is_space_def match_at_def word_boundary_def is_word_opt_def is_word_char_def first_char_def
  canonicalize_def char_code_def is_ascii_def

lemmas next_contacts_defs = next_contacts_def findOne_campaign_def findById_def
  batchSize_of_def parseInt_def
  is_space_def is_digit_def char_code_def digits_value_def CALL_COST_def limit_docs_def
  new_contacts_def Let_def


lemma list_all_update_doc:
  "list_all (\<lambda>(k, v). P v) coll \<Longrightarrow> (\<And>v. P v \<Longrightarrow> P (f v)) \<Longrightarrow>
   list_all (\<lambda>(k, v). P v) (update_doc j f coll)"
  by (induction coll) auto

section \<open>The batch dispatcher\<close>

lemma next_contacts_keeps_contacts:
  "contacts (fst (next_contacts now d uid cid count)) = contacts d"
  by (simp add: next_contacts_def Let_def split: option.splits)

text \<open>
  C1. The claim: no two batch requests for a campaign return overlapping contacts; with
  10 pending contacts, two requests of 5 return all 10 and a third one reports that the
  campaign is exhausted. The handler never writes a contact (the collection is the same
  after every request), so the query for new contacts finds the same ones again: on 10
  new contacts and a balance of 10, three successive requests of 5 each return the
  contacts 1 to 5 (and each debits 0.25).
\<close>

theorem next_contacts_serves_same_batch_again:
  "contacts (fst (next_contacts now d uid cid count)) = contacts d
   \<and> snd (next_contacts 100 (sample_db 10 [1, 2, 3, 4, 5, 6, 7, 8, 9, 10]) 1 7 ''5'')
     = Inr (map sample_contact [1, 2, 3, 4, 5], 39 / 4)
   \<and> snd (next_contacts 160
           (fst (next_contacts 100 (sample_db 10 [1, 2, 3, 4, 5, 6, 7, 8, 9, 10]) 1 7 ''5''))
           1 7 ''5'')
     = Inr (map sample_contact [1, 2, 3, 4, 5], 19 / 2)
   \<and> snd (next_contacts 220
           (fst (next_contacts 160
             (fst (next_contacts 100 (sample_db 10 [1, 2, 3, 4, 5, 6, 7, 8, 9, 10]) 1 7 ''5''))
             1 7 ''5''))
           1 7 ''5'')
     = Inr (map sample_contact [1, 2, 3, 4, 5], 37 / 4)"
proof -
  have "contacts (fst (next_contacts now d uid cid count)) = contacts d"
    by (rule next_contacts_keeps_contacts)
  then show ?thesis
    by (simp add: sample_defs next_contacts_defs)
qed

text \<open>
  C2. The claim: a successful batch request debits the per-call cost times the number of
  contacts returned. The handler debits the per-call cost times the batch size it was
  asked for: with two new contacts and a request of 5, the two contacts are returned and
  the balance goes from 1 to 0.75, a debit of 0.25 and not of 0.10.
\<close>

theorem next_contacts_charges_requested_count:
  "snd (next_contacts 100 (sample_db 1 [1, 2]) 1 7 ''5'') = Inr (map sample_contact [1, 2], 3 / 4)
   \<and> balance_of (sample_db 1 [1, 2]) 1
       - balance_of (fst (next_contacts 100 (sample_db 1 [1, 2]) 1 7 ''5'')) 1 = CALL_COST * 5
   \<and> CALL_COST * 5 \<noteq> CALL_COST * of_nat (length (map sample_contact [1, 2]))"
  by (simp add: sample_defs next_contacts_defs balance_of_def)

text \<open>
  C3. The claim: on a campaign with no pending contact the debit is refunded, the balance
  is unchanged, and the response differs from the insufficient-funds one. The handler
  saves the debited balance before it looks for contacts and returns without a refund:
  with no contact and a request of 5 the answer is 404 (not the 402 of insufficient
  funds) and the balance has gone from 1 to 0.75.
\<close>

theorem next_contacts_no_refund_when_exhausted:
  "next_contacts 100 (sample_db 1 []) 1 7 ''5''
     = (sample_db (3 / 4) [], Inl (Failure 404 ''No new contacts to call.''))
   \<and> balance_of (sample_db 1 []) 1 = 1
   \<and> balance_of (fst (next_contacts 100 (sample_db 1 []) 1 7 ''5'')) 1 = 3 / 4"
  by (simp add: sample_defs next_contacts_defs balance_of_def)

text \<open>
  C5 (as amended). A batch is returned only when the campaign exists, belongs to the
  caller and is active (and the caller exists, the balance covers the per-call cost times
  the batch size, and a new contact was found); a request for a campaign that is
  missing, someone else's or inactive gets an error. The count is not compared with the
  campaign's \<^verbatim>\<open>callsPerMinute\<close>: the batch size is the integer the count parses to, and
  5 when it parses to none or to zero; for a positive batch size the batch is the first
  that many new contacts of the campaign.
\<close>

theorem next_contacts_preconditions:
  "(next_contacts now d uid cid count = (d', Inr (batch, nb)) \<longrightarrow>
      (\<exists>c u. findById (campaigns d) cid = Some c \<and> campaign_user c = uid \<and> isActive c
           \<and> findById (users d) uid = Some u
           \<and> CALL_COST * of_int (batchSize_of count) \<le> balance u
           \<and> batch \<noteq> []
           \<and> (0 < batchSize_of count \<longrightarrow>
                batch = take (nat (batchSize_of count)) (new_contacts d cid))))
   \<and> (\<not> (\<exists>c. findById (campaigns d) cid = Some c \<and> campaign_user c = uid \<and> isActive c) \<longrightarrow>
        (\<exists>e. snd (next_contacts now d uid cid count) = Inl e))
   \<and> (parseInt count = None \<or> parseInt count = Some 0 \<longrightarrow> batchSize_of count = 5)
   \<and> (parseInt count = Some n \<and> n \<noteq> 0 \<longrightarrow> batchSize_of count = n)"
  by (auto simp: next_contacts_def findOne_campaign_def Let_def new_contacts_def
        limit_docs_def batchSize_of_def
      split: option.splits if_splits)

theorem next_contacts_preconditions_witness:
  "next_contacts 100 (sample_db 1 [1, 2, 3]) 1 7 ''2''
     = ((sample_db (9 / 10) [1, 2, 3])
          \<lparr>campaigns := [(7, sample_campaign\<lparr>lastBatchFetchTime := Some 100\<rparr>)]\<rparr>,
        Inr (map sample_contact [1, 2], 9 / 10))
   \<and> findById (campaigns (sample_db 1 [1, 2, 3])) 7 = Some sample_campaign
   \<and> campaign_user sample_campaign = 1 \<and> isActive sample_campaign
   \<and> snd (next_contacts 100 (sample_db 1 [1, 2, 3]) 2 7 ''2'')
       = Inl (Failure 500 ''Error fetching contacts.'')
   \<and> snd (next_contacts 100 (sample_db 1 [1, 2, 3]) 1 8 ''2'')
       = Inl (Failure 404 ''Campaign not found or is inactive.'')
   \<and> parseInt ''abc'' = None \<and> batchSize_of ''abc'' = 5
   \<and> parseInt ''2'' = Some 2 \<and> batchSize_of ''2'' = 2"
  using next_contacts_preconditions [of 100 "sample_db 1 [1, 2, 3]" 1 7 "''2''"
      "(sample_db (9 / 10) [1, 2, 3])
          \<lparr>campaigns := [(7, sample_campaign\<lparr>lastBatchFetchTime := Some 100\<rparr>)]\<rparr>"
      "map sample_contact [1, 2]" "9 / 10" 2]
    next_contacts_preconditions [of 100 "sample_db 1 [1, 2, 3]" 1 8 "''abc''"]
  by (simp add: sample_defs next_contacts_defs)

text \<open>
  The claim as first stated bounds the count by the campaign's calls-per-tick setting
  and asks for a positive integer: with \<^verbatim>\<open>callsPerMinute = 5\<close> a count of 7 is served
  with seven contacts, and a count that is no number is served with five.
\<close>

theorem next_contacts_count_above_policy:
  "callsPerMinute sample_campaign = 5
   \<and> findById (campaigns (sample_db 10 [1, 2, 3, 4, 5, 6, 7, 8, 9, 10])) 7 = Some sample_campaign
   \<and> snd (next_contacts 100 (sample_db 10 [1, 2, 3, 4, 5, 6, 7, 8, 9, 10]) 1 7 ''7'')
       = Inr (map sample_contact [1, 2, 3, 4, 5, 6, 7], 193 / 20)
   \<and> snd (next_contacts 100 (sample_db 10 [1, 2, 3, 4, 5, 6, 7, 8, 9, 10]) 1 7 ''many'')
       = Inr (map sample_contact [1, 2, 3, 4, 5], 39 / 4)"
  by (simp add: sample_defs next_contacts_defs)

section \<open>The balance ledger\<close>

lemma next_contacts_nonneg:
  assumes "balances_nonneg d"
  shows "balances_nonneg (fst (next_contacts now d uid cid count))"
proof -
  have upd: "list_all (\<lambda>(k, u). 0 \<le> balance u)
               (update_doc uid (\<lambda>x. x\<lparr>balance := b\<rparr>) (users d))"
    if "0 \<le> b" for b
    using assms that unfolding balances_nonneg_def
    by (intro list_all_update_doc[where P = "\<lambda>u. 0 \<le> balance u"]) auto
  show ?thesis
    using assms upd
    by (auto simp: next_contacts_def Let_def balances_nonneg_def split: option.splits)
qed

lemma add_balance_nonneg:
  assumes "balances_nonneg d"
  shows "balances_nonneg (fst (add_balance d userId amount))"
proof (cases amount)
  case (JNumber a)
  have "list_all (\<lambda>(k, u). 0 \<le> balance u)
          (update_doc userId (\<lambda>u. u\<lparr>balance := balance u + a\<rparr>) (users d))"
    if "0 < a"
    using assms that unfolding balances_nonneg_def
    by (intro list_all_update_doc[where P = "\<lambda>u. 0 \<le> balance u"]) auto
  with JNumber assms show ?thesis
    by (auto simp: add_balance_def Let_def balances_nonneg_def split: option.splits)
qed (use assms in \<open>auto simp: add_balance_def\<close>)

lemma apply_ledger_op_nonneg: "balances_nonneg d \<Longrightarrow> balances_nonneg (apply_ledger_op d x)"
  by (cases x) (simp_all add: next_contacts_nonneg add_balance_nonneg)

lemma run_ledger_nonneg:
  "balances_nonneg d \<Longrightarrow> balances_nonneg (foldl apply_ledger_op d ops)"
  by (induction ops arbitrary: d) (simp_all add: apply_ledger_op_nonneg)

text \<open>
  C4. When no balance is negative at the start, then after every operation of any
  sequence of debits (dispatch ticks) and credits (top-ups), that is after every prefix
  of the sequence, no balance is negative.
\<close>

theorem ledger_balance_never_negative:
  "balances_nonneg d \<Longrightarrow> balances_nonneg (foldl apply_ledger_op d (take n ops))"
  by (rule run_ledger_nonneg)

theorem ledger_balance_never_negative_witness:
  "balances_nonneg (sample_db (3 / 10) [1, 2])
   \<and> balances_nonneg
       (foldl apply_ledger_op (sample_db (3 / 10) [1, 2])
          (take 3 [Debit 100 1 7 ''5'', Debit 160 1 7 ''5'', Credit 1 (JNumber 2),
                   Debit 220 1 7 ''2'']))"
proof -
  have h: "balances_nonneg (sample_db (3 / 10) [1, 2])"
    by (simp add: balances_nonneg_def sample_defs)
  show ?thesis
    using h
      ledger_balance_never_negative [OF h, of 3
        "[Debit 100 1 7 ''5'', Debit 160 1 7 ''5'', Credit 1 (JNumber 2), Debit 220 1 7 ''2'']"]
    by simp
qed

lemma add_balance_inc_exact:
  "add_balance_inc (+) d userId amount = add_balance d userId amount"
  by (simp add: add_balance_inc_def add_balance_def)




section \<open>The campaign lifecycle\<close>

text \<open>
  C6. For a paused campaign, \<open>Start\<close> succeeds, and makes the campaign active, exactly
  when the owner's balance is at least the cost of one call; otherwise it gives the
  insufficient-funds error and the campaign stays paused.
\<close>

theorem Start_needs_call_cost:
  assumes "\<not> isActive c"
  shows "(fst (Start owner c) = None) = (CALL_COST \<le> balance owner)
       \<and> (CALL_COST \<le> balance owner \<longrightarrow> Start owner c = (None, c\<lparr>isActive := True\<rparr>))
       \<and> (balance owner < CALL_COST \<longrightarrow>
            Start owner c = (Some InsufficientFunds, c) \<and> \<not> isActive (snd (Start owner c)))"
  using assms by (auto simp: Start_def)

theorem Start_needs_call_cost_witness:
  "\<not> isActive (sample_campaign\<lparr>isActive := False\<rparr>)
   \<and> CALL_COST \<le> balance (sample_user (1 / 20))
   \<and> Start (sample_user (1 / 20)) (sample_campaign\<lparr>isActive := False\<rparr>)
       = (None, sample_campaign)
   \<and> balance (sample_user (1 / 25)) < CALL_COST
   \<and> Start (sample_user (1 / 25)) (sample_campaign\<lparr>isActive := False\<rparr>)
       = (Some InsufficientFunds, sample_campaign\<lparr>isActive := False\<rparr>)"
proof -
  have h: "\<not> isActive (sample_campaign\<lparr>isActive := False\<rparr>)"
    by simp
  show ?thesis
    using Start_needs_call_cost [OF h, of "sample_user (1 / 20)"]
      Start_needs_call_cost [OF h, of "sample_user (1 / 25)"]
    by (simp add: sample_defs CALL_COST_def)
qed

section \<open>Moderation\<close>

lemma char_code_inj: "(char_code a = char_code b) = (a = b)"
  by (simp add: char_code_def)

lemma char_code_less: "char_code c < 256"
  by (simp add: char_code_def)

lemma char_code_upper:
  "char_code (upper_char c)
     = (if 97 \<le> char_code c \<and> char_code c \<le> 122 then char_code c - 32 else char_code c)"
proof -
  have "(char_code c - 32) mod 256 = char_code c - 32"
    using char_code_less [of c] by simp
  then show ?thesis
    by (simp add: upper_char_def) (simp add: char_code_def)
qed

lemma char_code_lower:
  "char_code (lower_char c)
     = (if 65 \<le> char_code c \<and> char_code c \<le> 90 then char_code c + 32 else char_code c)"
proof -
  have "char_code c \<le> 90 \<Longrightarrow> (char_code c + 32) mod 256 = char_code c + 32"
    by simp
  then show ?thesis
    by (simp add: lower_char_def) (simp add: char_code_def)
qed

lemma upper_eq_iff_lower_eq:
  "(upper_char a = upper_char b) = (lower_char a = lower_char b)"
proof -
  have "(char_code (upper_char a) = char_code (upper_char b))
          = (char_code (lower_char a) = char_code (lower_char b))"
    unfolding char_code_upper char_code_lower by (auto split: if_splits)
  then show ?thesis by (simp only: char_code_inj)
qed

lemma lower_char_idem: "lower_char (lower_char c) = lower_char c"
proof -
  have "char_code (lower_char (lower_char c)) = char_code (lower_char c)"
    unfolding char_code_lower by (auto split: if_splits)
  then show ?thesis by (simp only: char_code_inj)
qed

lemma is_word_char_lower: "is_word_char (lower_char c) = is_word_char c"
  unfolding is_word_char_def char_code_lower by (auto split: if_splits)

lemma last_before_Cons: "last_before (Some c) cs = last_before b (c # cs)"
  by (simp add: last_before_def)

lemma match_word_iff:
  "match_word before w t =
     (\<exists>m suf. t = m @ suf \<and> map canonicalize m = map canonicalize w
        \<and> word_boundary (last_before before m) (first_char suf))"
proof (induction before w t rule: match_word.induct)
  case (1 before t)
  then show ?case by (simp add: last_before_def)
next
  case (2 before p ps)
  then show ?case by simp
next
  case (3 before p ps c cs)
  show ?case
  proof
    assume "match_word before (p # ps) (c # cs)"
    then obtain m suf where "canonicalize p = canonicalize c" "cs = m @ suf"
      "map canonicalize m = map canonicalize ps"
      "word_boundary (last_before (Some c) m) (first_char suf)"
      using 3 by auto
    then have "c # cs = (c # m) @ suf \<and> map canonicalize (c # m) = map canonicalize (p # ps)
        \<and> word_boundary (last_before before (c # m)) (first_char suf)"
      by (simp add: last_before_Cons [of c m before])
    then show "\<exists>m suf. c # cs = m @ suf \<and> map canonicalize m = map canonicalize (p # ps)
        \<and> word_boundary (last_before before m) (first_char suf)"
      by blast
  next
    assume "\<exists>m suf. c # cs = m @ suf \<and> map canonicalize m = map canonicalize (p # ps)
        \<and> word_boundary (last_before before m) (first_char suf)"
    then obtain m suf where m: "c # cs = m @ suf" "map canonicalize m = map canonicalize (p # ps)"
        "word_boundary (last_before before m) (first_char suf)"
      by blast
    from m(2) obtain x m' where m': "m = x # m'" by (cases m) auto
    with m have "x = c" "cs = m' @ suf" "canonicalize c = canonicalize p"
        "map canonicalize m' = map canonicalize ps"
        "word_boundary (last_before (Some c) m') (first_char suf)"
      by (auto simp: last_before_def split: if_splits)
    then show "match_word before (p # ps) (c # cs)"
      using 3 by auto
  qed
qed

lemma regex_search_iff:
  "regex_search before w t =
     (\<exists>pre rest. t = pre @ rest
        \<and> match_at (last_before before pre) w rest)"
proof (induction t arbitrary: before)
  case Nil
  then show ?case by (simp add: last_before_def)
next
  case (Cons c cs)
  show ?case
  proof
    assume "regex_search before w (c # cs)"
    then consider "match_at before w (c # cs)" | "regex_search (Some c) w cs" by auto
    then show "\<exists>pre rest. c # cs = pre @ rest \<and> match_at (last_before before pre) w rest"
    proof cases
      case 1
      then have "c # cs = [] @ (c # cs) \<and> match_at (last_before before []) w (c # cs)"
        by (simp add: last_before_def)
      then show ?thesis by blast
    next
      case 2
      then obtain pre rest where "cs = pre @ rest" "match_at (last_before (Some c) pre) w rest"
        using Cons.IH by blast
      then have "c # cs = (c # pre) @ rest \<and> match_at (last_before before (c # pre)) w rest"
        by (simp add: last_before_Cons [of c pre before])
      then show ?thesis by blast
    qed
  next
    assume "\<exists>pre rest. c # cs = pre @ rest \<and> match_at (last_before before pre) w rest"
    then obtain pre rest where pr: "c # cs = pre @ rest" "match_at (last_before before pre) w rest"
      by blast
    show "regex_search before w (c # cs)"
    proof (cases pre)
      case Nil
      with pr show ?thesis by (auto simp: last_before_def)
    next
      case (Cons x pre')
      with pr have "cs = pre' @ rest" "match_at (last_before (Some c) pre') w rest"
        by (auto simp: last_before_def split: if_splits)
      then have "regex_search (Some c) w cs"
        using Cons.IH by blast
      then show ?thesis by simp
    qed
  qed
qed

lemma map_canonicalize_eq:
  "(map canonicalize m = map canonicalize w) = (map lower_char m = map lower_char w)"
proof (induction m arbitrary: w)
  case Nil
  then show ?case by auto
next
  case (Cons c cs)
  then show ?case
    by (cases w) (auto simp: canonicalize_def upper_eq_iff_lower_eq)
qed

lemma lowered_segment:
  assumes "map lower_char msg = pre @ m @ suf"
  shows "map lower_char m = m"
proof -
  have "map lower_char (map lower_char msg) = map lower_char msg"
    by (simp add: lower_char_idem)
  with assms have "map lower_char pre @ map lower_char m @ map lower_char suf = pre @ m @ suf"
    by simp
  then show ?thesis by simp
qed

lemma word_boundary_before_word:
  "is_word_char c \<Longrightarrow> word_boundary (last_before None pre) (Some c)
     = (pre = [] \<or> \<not> is_word_char (last pre))"
  by (auto simp: word_boundary_def is_word_opt_def last_before_def)

lemma word_boundary_after_word:
  "is_word_char c \<Longrightarrow> word_boundary (Some c) (first_char suf)
     = (suf = [] \<or> \<not> is_word_char (hd suf))"
  by (cases suf) (auto simp: word_boundary_def is_word_opt_def first_char_def)

lemma match_at_word_iff:
  assumes "w \<noteq> []" "is_word_char (hd w)" "is_word_char (last w)" "map lower_char rest = rest"
  shows "match_at (last_before None pre) w rest =
     (\<exists>suf. rest = map lower_char w @ suf
        \<and> (pre = [] \<or> \<not> is_word_char (last pre))
        \<and> (suf = [] \<or> \<not> is_word_char (hd suf)))"
proof -
  define lw where "lw = map lower_char w"
  have lw: "lw \<noteq> []" "is_word_char (hd lw)" "is_word_char (last lw)"
    using assms(1,2,3)
    by (auto simp: lw_def hd_map last_map is_word_char_lower)
  have seg: "m = lw" if "rest = m @ suf" "map canonicalize m = map canonicalize w" for m suf
  proof -
    from that(1) assms(4) have "map lower_char m = m"
      by (metis append_eq_append_conv length_map map_append)
    with that(2) show ?thesis by (simp add: map_canonicalize_eq lw_def)
  qed
  have "map lower_char lw = map lower_char w"
    by (simp add: lw_def lower_char_idem)
  then have canon: "map canonicalize lw = map canonicalize w"
    by (simp only: map_canonicalize_eq)
  have first: "first_char (lw @ suf) = Some (hd lw)" for suf
    using lw(1) by (cases lw) (auto simp: first_char_def)
  have lastb: "last_before b lw = Some (last lw)" for b
    using lw(1) by (simp add: last_before_def)
  show ?thesis
  proof
    assume "match_at (last_before None pre) w rest"
    then have b: "word_boundary (last_before None pre) (first_char rest)"
      and "match_word (last_before None pre) w rest"
      by (auto simp: match_at_def)
    then obtain m suf where m: "rest = m @ suf" "map canonicalize m = map canonicalize w"
        "word_boundary (last_before (last_before None pre) m) (first_char suf)"
      by (auto simp: match_word_iff)
    from m(1,2) have "m = lw" by (rule seg)
    with m b lw have "rest = lw @ suf \<and> (pre = [] \<or> \<not> is_word_char (last pre))
        \<and> (suf = [] \<or> \<not> is_word_char (hd suf))"
      by (simp add: first lastb word_boundary_before_word word_boundary_after_word)
    then show "\<exists>suf. rest = map lower_char w @ suf
        \<and> (pre = [] \<or> \<not> is_word_char (last pre))
        \<and> (suf = [] \<or> \<not> is_word_char (hd suf))"
      unfolding lw_def by blast
  next
    assume "\<exists>suf. rest = map lower_char w @ suf
        \<and> (pre = [] \<or> \<not> is_word_char (last pre))
        \<and> (suf = [] \<or> \<not> is_word_char (hd suf))"
    then obtain suf where s: "rest = lw @ suf" "pre = [] \<or> \<not> is_word_char (last pre)"
        "suf = [] \<or> \<not> is_word_char (hd suf)"
      unfolding lw_def by blast
    have "word_boundary (last_before None pre) (first_char rest)"
      using s lw by (simp add: first word_boundary_before_word)
    moreover have "word_boundary (last_before (last_before None pre) lw) (first_char suf)"
      using s lw by (simp add: lastb word_boundary_after_word)
    then have "match_word (last_before None pre) w rest"
      unfolding match_word_iff using s(1) canon by blast
    ultimately show "match_at (last_before None pre) w rest"
      by (simp add: match_at_def)
  qed
qed

lemma regex_search_whole_word:
  assumes "w \<noteq> []" "is_word_char (hd w)" "is_word_char (last w)"
  shows "regex_search None w (map lower_char msg) =
     (\<exists>pre suf. map lower_char msg = pre @ map lower_char w @ suf
        \<and> (pre = [] \<or> \<not> is_word_char (last pre))
        \<and> (suf = [] \<or> \<not> is_word_char (hd suf)))"
proof -
  have low: "map lower_char rest = rest" if "map lower_char msg = pre @ rest" for pre rest
    using lowered_segment [of msg pre rest "[]"] that by simp
  have "regex_search None w (map lower_char msg) =
      (\<exists>pre rest. map lower_char msg = pre @ rest \<and> match_at (last_before None pre) w rest)"
    by (rule regex_search_iff)
  also have "\<dots> = (\<exists>pre rest. map lower_char msg = pre @ rest \<and>
      (\<exists>suf. rest = map lower_char w @ suf
        \<and> (pre = [] \<or> \<not> is_word_char (last pre))
        \<and> (suf = [] \<or> \<not> is_word_char (hd suf))))"
    using match_at_word_iff [OF assms low] by blast
  also have "\<dots> = (\<exists>pre suf. map lower_char msg = pre @ map lower_char w @ suf
        \<and> (pre = [] \<or> \<not> is_word_char (last pre))
        \<and> (suf = [] \<or> \<not> is_word_char (hd suf)))"
    by blast
  finally show ?thesis .
qed

lemma regex_test_literal_word:
  assumes "is_ascii msg" "literal_word w"
  shows "regex_test w (map lower_char msg) = Some (contains_whole_word w msg = Some True)"
proof -
  from assms(2) have w: "w \<noteq> []" "is_word_char (hd w)" "is_word_char (last w)"
    and a: "is_ascii w" "\<not> list_ex is_syntax_char w"
    by (auto simp: literal_word_def)
  have "contains_whole_word w msg =
      Some (\<exists>pre suf. map lower_char msg = pre @ map lower_char w @ suf
        \<and> (pre = [] \<or> \<not> is_word_char (last pre))
        \<and> (suf = [] \<or> \<not> is_word_char (hd suf)))"
    using assms(1) a(1) by (simp add: contains_whole_word_def toLowerCase_def)
  then show ?thesis
    using a by (simp add: regex_test_def regex_search_whole_word [OF w])
qed

lemma blocklist_loop_words:
  assumes "is_ascii msg" "list_all (\<lambda>w. literal_word (trim w)) ws"
  shows "blocklist_loop (map lower_char msg) ws
           = Some (list_ex (\<lambda>w. contains_whole_word (trim w) msg = Some True) ws)"
  using assms(2)
proof (induction ws)
  case Nil
  then show ?case by simp
next
  case (Cons w ws)
  then have "literal_word (trim w)" by simp
  then have "regex_test (trim w) (map lower_char msg)
      = Some (contains_whole_word (trim w) msg = Some True)"
    by (rule regex_test_literal_word [OF assms(1)])
  with Cons show ?case by auto
qed

text \<open>
  Where the word list check is right. For ASCII text and listed words that, once
  trimmed, are ASCII, begin and end with a word character and have no syntax character
  of the pattern language, \<^verbatim>\<open>isTextFlagged\<close> answers true exactly when the classifier
  flags the text or the text holds one of the trimmed words as a whole word.
\<close>

lemma isTextFlagged_literal_words:
  assumes "is_ascii msg" "list_all (\<lambda>w. literal_word (trim w)) blocklist"
  shows "isTextFlagged key reply msg blocklist
           = Some (classifier_flags key reply
                   \<or> list_ex (\<lambda>w. contains_whole_word (trim w) msg = Some True) blocklist)"
  using assms(1) blocklist_loop_words [OF assms]
  by (simp add: isTextFlagged_def toLowerCase_def)

text \<open>
  What the classifier contributes: with a key and a successful answer that holds the
  three scores, the text is flagged when one of them exceeds the threshold; without a
  key, on a failed call, on an answer that is not successful or has no scores, it is
  not flagged.
\<close>

lemma classifier_flags_cases:
  "classifier_flags key (Reply True (Some (Score spam, Score toxicity, Score threat)))
     = (classifier_configured key
        \<and> (spam > SPAM_THRESHOLD \<or> toxicity > SPAM_THRESHOLD \<or> threat > SPAM_THRESHOLD))"
  "\<not> classifier_flags None reply"
  "\<not> classifier_flags key Unreachable"
  "\<not> classifier_flags key (Reply False body)"
  "\<not> classifier_flags key (Reply True None)"
  by (simp_all add: classifier_flags_def classifier_configured_def)

text \<open>The specification's two examples, with the classifier unreachable.\<close>

lemma isTextFlagged_examples:
  "isTextFlagged (Some ''key'') Unreachable ''call about foo now'' [''foo''] = Some True"
  "isTextFlagged (Some ''key'') Unreachable ''foobar'' [''foo''] = Some False"
  "isTextFlagged (Some ''key'') Unreachable ''Your E-Mail, please'' ['' e-mail ''] = Some True"
  by (simp_all add: isTextFlagged_defs)

text \<open>
  C7. The claim: the text is flagged exactly when the classifier flags it or it holds a
  word of the custom list as a whole word, whatever the case. The handler puts the
  listed word between two \<^verbatim>\<open>\b\<close> anchors, and an anchor next to a character of the word
  that is no word character asks for a word character on its other side. So a listed
  word that ends in such a character is not found where it stands as a whole word:
  with no classifier, or an unreachable one, and the list \<^verbatim>\<open>["foo-"]\<close>, the text
  \<^verbatim>\<open>call foo- now\<close> holds the listed word between two spaces and is not flagged.
\<close>

theorem isTextFlagged_misses_whole_word:
  "isTextFlagged None Unreachable ''call foo- now'' [''foo-''] = Some False
   \<and> isTextFlagged (Some ''key'') Unreachable ''call foo- now'' [''foo-''] = Some False
   \<and> contains_whole_word ''foo-'' ''call foo- now'' = Some True"
proof -
  have "map lower_char ''call foo- now'' = ''call '' @ map lower_char ''foo-'' @ '' now''"
    by (simp add: lower_char_def char_code_def)
  moreover have "\<not> is_word_char (last ''call '')" "\<not> is_word_char (hd '' now'')"
    by (simp_all add: is_word_char_def char_code_def)
  ultimately have "\<exists>pre suf. map lower_char ''call foo- now'' = pre @ map lower_char ''foo-'' @ suf
      \<and> (pre = [] \<or> \<not> is_word_char (last pre)) \<and> (suf = [] \<or> \<not> is_word_char (hd suf))"
    by blast
  moreover have "is_ascii ''call foo- now''" "is_ascii ''foo-''"
    by (simp_all add: is_ascii_def char_code_def)
  ultimately have "contains_whole_word ''foo-'' ''call foo- now'' = Some True"
    by (simp add: contains_whole_word_def toLowerCase_def)
  moreover have "isTextFlagged None Unreachable ''call foo- now'' [''foo-''] = Some False"
    "isTextFlagged (Some ''key'') Unreachable ''call foo- now'' [''foo-''] = Some False"
    by (simp_all add: isTextFlagged_defs)
  ultimately show ?thesis by simp
qed

section \<open>The global blocklist\<close>

lemma set_addToSet_each: "set (addToSet_each arr vs) = set arr \<union> set vs"
  by (induction vs arbitrary: arr) auto

lemma addToSet_each_present: "set vs \<subseteq> set arr \<Longrightarrow> addToSet_each arr vs = arr"
  by (induction vs arbitrary: arr) auto

lemma distinct_addToSet_each: "distinct arr \<Longrightarrow> distinct (addToSet_each arr vs)"
  by (induction vs arbitrary: arr) auto

lemma blocklist_of_post:
  "blocklist_of (fst (post_blocklist d numbers)) = addToSet_each (blocklist_of d) (numbersToAdd numbers)"
  by (simp add: post_blocklist_def blocklist_of_def Let_def)

lemma blocklist_of_delete:
  "delete_blocklist d n = Some r \<Longrightarrow> blocklist_of (fst r) = filter (\<lambda>x. x \<noteq> n) (blocklist_of d)"
  by (auto simp: delete_blocklist_def blocklist_of_def Let_def split: option.splits)

lemma apply_edit_distinct: "distinct (blocklist_of d) \<Longrightarrow> distinct (blocklist_of (apply_edit d e))"
proof (cases e)
  case (Add numbers)
  assume "distinct (blocklist_of d)"
  with Add show ?thesis by (simp add: blocklist_of_post distinct_addToSet_each)
next
  case (Remove n)
  assume "distinct (blocklist_of d)"
  with Remove show ?thesis
    by (cases "delete_blocklist d n") (simp_all add: blocklist_of_delete)
qed

lemma run_edits_distinct:
  "distinct (blocklist_of d) \<Longrightarrow> distinct (blocklist_of (foldl apply_edit d edits))"
  by (induction edits arbitrary: d) (simp_all add: apply_edit_distinct)

text \<open>
  C9. Adding numbers that the blocklist already holds leaves it unchanged; posting the
  same request a second time changes nothing; a blocklist without duplicates has none
  after any sequence of additions and removals (and it starts empty); and adding one
  number twice to an empty blocklist gives a blocklist of that one number.
\<close>

theorem post_blocklist_idempotent:
  "(set (numbersToAdd numbers) \<subseteq> set (blocklist_of d) \<longrightarrow>
      snd (post_blocklist d numbers) = blocklist_of d
      \<and> blocklist_of (fst (post_blocklist d numbers)) = blocklist_of d)
   \<and> post_blocklist (fst (post_blocklist d numbers)) numbers
       = (fst (post_blocklist d numbers), snd (post_blocklist d numbers))
   \<and> (distinct (blocklist_of d) \<longrightarrow> distinct (blocklist_of (foldl apply_edit d edits)))
   \<and> (blocklist_of d = [] \<and> numbersToAdd numbers = [n] \<longrightarrow>
        snd (post_blocklist (fst (post_blocklist d numbers)) numbers) = [n])"
proof -
  have twice: "addToSet_each (addToSet_each arr vs) vs = addToSet_each arr vs" for arr vs
    by (rule addToSet_each_present) (simp add: set_addToSet_each)
  show ?thesis
    by (auto simp: post_blocklist_def blocklist_of_def Let_def addToSet_each_present twice
          run_edits_distinct[unfolded blocklist_of_def] split: option.splits)
qed

theorem post_blocklist_idempotent_witness:
  "numbersToAdd (Some ''15551234567'') = [''15551234567'']
   \<and> snd (post_blocklist (fst (post_blocklist (sample_db 1 []) (Some ''15551234567'')))
            (Some ''15551234567'')) = [''15551234567'']
   \<and> length (snd (post_blocklist (fst (post_blocklist (sample_db 1 []) (Some ''15551234567'')))
            (Some ''15551234567''))) = 1
   \<and> distinct (blocklist_of (sample_db 1 []))
   \<and> distinct (blocklist_of (foldl apply_edit (sample_db 1 [])
        [Add (Some ''15551234567, 15552223333''), Add (Some ''15552223333,15554445555''),
         Remove ''15551234567'', Add (Some ''15554445555'')]))
   \<and> blocklist_of (foldl apply_edit (sample_db 1 [])
        [Add (Some ''15551234567, 15552223333''), Add (Some ''15552223333,15554445555''),
         Remove ''15551234567'', Add (Some ''15554445555'')]) = [''15552223333'', ''15554445555'']"
  using post_blocklist_idempotent [of "Some ''15551234567''" "sample_db 1 []"
      "[Add (Some ''15551234567, 15552223333''), Add (Some ''15552223333,15554445555''),
         Remove ''15551234567'', Add (Some ''15554445555'')]" "''15551234567''"]
  by (simp add: sample_defs post_blocklist_def blocklist_of_def delete_blocklist_def
      numbersToAdd_def trim_def is_space_def char_code_def Let_def)

section \<open>Registration\<close>

lemma findById_append_new:
  "findById coll k = None \<Longrightarrow> findById (coll @ [(k, v)]) k = Some v"
  by (induction coll) (auto simp: findById_def split: if_splits)

text \<open>
  C10. A registration that succeeds creates a user whose role is the request body's
  role, and \<^verbatim>\<open>user\<close> when the body has none; the handler takes nothing but the body,
  so whenever the user name is free (and not empty) a request with role \<^verbatim>\<open>admin\<close>
  creates an administrator.
\<close>

theorem register_role_from_body:
  "(register hash newId now d uname pw body_role = (d', Inr uid) \<longrightarrow>
      uid = newId
      \<and> findById (users d') uid
          = Some \<lparr> username = trim uname, password = hash pw,
                    role = (case body_role of None \<Rightarrow> ''user'' | Some r \<Rightarrow> r),
                    balance = 0, createdAt = now \<rparr>)
   \<and> (\<not> username_taken d uname \<and> \<not> username_taken d (trim uname) \<and> trim uname \<noteq> []
        \<and> hash pw \<noteq> [] \<and> findById (users d) newId = None \<longrightarrow>
        map_option role
          (findById (users (fst (register hash newId now d uname pw (Some ''admin'')))) newId)
          = Some ''admin''
        \<and> snd (register hash newId now d uname pw (Some ''admin'')) = Inr newId
        \<and> map_option role
          (findById (users (fst (register hash newId now d uname pw None))) newId)
          = Some ''user''
        \<and> snd (register hash newId now d uname pw None) = Inr newId)"
  by (auto simp: register_def Let_def findById_append_new split: if_splits)

theorem register_role_from_body_witness:
  "register (\<lambda>p. ''$2a$10$'' @ p) 2 50 (sample_db 1 []) ''mallory'' ''pw'' (Some ''admin'')
     = ((sample_db 1 [])\<lparr>users := [(1, sample_user 1),
          (2, \<lparr> username = ''mallory'', password = ''$2a$10$pw'', role = ''admin'',
                 balance = 0, createdAt = 50 \<rparr>)]\<rparr>, Inr 2)
   \<and> map_option role (findById (users (fst
        (register (\<lambda>p. ''$2a$10$'' @ p) 2 50 (sample_db 1 []) ''mallory'' ''pw'' (Some ''admin'')))) 2)
       = Some ''admin''
   \<and> map_option role (findById (users (fst
        (register (\<lambda>p. ''$2a$10$'' @ p) 2 50 (sample_db 1 []) ''mallory'' ''pw'' None))) 2)
       = Some ''user''"
  using register_role_from_body [of "\<lambda>p. ''$2a$10$'' @ p" 2 50 "sample_db 1 []" "''mallory''" "''pw''"
      "Some ''admin''"
      "(sample_db 1 [])\<lparr>users := [(1, sample_user 1),
          (2, \<lparr> username = ''mallory'', password = ''$2a$10$pw'', role = ''admin'',
                 balance = 0, createdAt = 50 \<rparr>)]\<rparr>" 2]
  by (simp add: register_def username_taken_def sample_defs findById_def trim_def
      is_space_def char_code_def Let_def)

end
